theory Spec2Isabelle
  imports Main
begin

section \<open>Docker Hub tag deletion: the script \<open>hub-tag-delete.py\<close>\<close>

text \<open>
  The script reads deletion records (tag patterns with a deletion date) from a JSON file
  and from a Markdown table, keeps the records whose date has passed, lists the tags of
  the repository on Docker Hub, matches them against the patterns and deletes the
  matching tags.

  The embedding follows the source function by function. Exceptions are values of the
  type \<open>error\<close>; a function that may raise returns \<open>error + 'a\<close>. The HTTP session, the
  standard output and the clock are explicit: the server is the finite list of responses
  it gives in the run (a request beyond that list finds nobody answering), every request
  is logged, every printed line is logged.

  Strings are lists of 8-bit characters. The library functions the script calls
  (\<open>str.strip\<close>, \<open>str.split\<close>, \<open>fnmatch.fnmatch\<close>, \<open>Response.raise_for_status\<close>) are
  modelled from their documentation; \<open>datetime.strptime\<close> is a parameter of the model.
\<close>

subsection \<open>Exceptions\<close>

datatype error =
    HTTPError nat          \<comment> \<open>\<open>requests.exceptions.HTTPError\<close>, with the status code\<close>
  | ConnectionError        \<comment> \<open>\<open>requests.exceptions.ConnectionError\<close>: nobody answers\<close>
  | BodyError              \<comment> \<open>a response body without the expected shape:
                               \<open>JSONDecodeError\<close>, \<open>KeyError\<close> or \<open>TypeError\<close> on reading it\<close>
  | ValueError             \<comment> \<open>\<open>strptime\<close> on a string that does not match the format
                               (the spec's DateParseError), or \<open>int()\<close> on a non-number\<close>
  | IndexError string      \<comment> \<open>with its message (the spec's ColumnRangeError)\<close>
  | TypeError              \<comment> \<open>iterating over \<open>None\<close>, opening \<open>None\<close>\<close>
  | OSError                \<comment> \<open>a file that cannot be opened or read\<close>
  | ParseError             \<comment> \<open>a JSON source file that is not a list of records\<close>

subsection \<open>String functions of Python\<close>

definition isspace :: "char \<Rightarrow> bool" where
  \<comment> \<open>the ASCII characters for which \<open>str.isspace\<close> holds\<close>
  "isspace c = (of_char c \<in> {9, 10, 11, 12, 13, 28, 29, 30, 31, 32 :: nat})"

definition lstrip :: "string \<Rightarrow> string" where
  "lstrip s = dropWhile isspace s"

definition rstrip :: "string \<Rightarrow> string" where
  "rstrip s = rev (dropWhile isspace (rev s))"

definition strip :: "string \<Rightarrow> string" where
  "strip s = rstrip (lstrip s)"

fun startswith :: "string \<Rightarrow> string \<Rightarrow> bool" where
  \<comment> \<open>\<open>startswith s p\<close> is \<open>s.startswith(p)\<close>\<close>
  "startswith s [] = True"
| "startswith [] (p # ps) = False"
| "startswith (c # cs) (p # ps) = (c = p \<and> startswith cs ps)"

fun split_on :: "char \<Rightarrow> string \<Rightarrow> string list" where
  \<comment> \<open>\<open>s.split(sep)\<close> for a separator of one character: one piece more than separators\<close>
  "split_on sep [] = [[]]"
| "split_on sep (c # cs) =
     (if c = sep then [] # split_on sep cs
      else (case split_on sep cs of
              [] \<Rightarrow> [[c]]
            | p # ps \<Rightarrow> (c # p) # ps))"

definition remove_char :: "char \<Rightarrow> string \<Rightarrow> string" where
  \<comment> \<open>\<open>s.replace(c, '')\<close>\<close>
  "remove_char c s = filter (\<lambda>x. x \<noteq> c) s"

definition py_index :: "'a list \<Rightarrow> int \<Rightarrow> error + 'a" where
  \<comment> \<open>the subscript \<open>xs[i]\<close> of a list, where \<open>xs[-1]\<close> is the last element\<close>
  "py_index xs i =
     (if 0 \<le> i \<and> i < int (length xs) then Inr (xs ! nat i)
      else if i < 0 \<and> - int (length xs) \<le> i then Inr (xs ! nat (int (length xs) + i))
      else Inl (IndexError ''list index out of range''))"

subsection \<open>Configuration and deletion records\<close>

text \<open>
  The dictionary \<open>config\<close>, read from the environment at start-up. A file name is
  \<open>None\<close> when its variable is unset. The column settings are the values
  \<open>int(config['markdown'][...])\<close>, \<open>None\<close> for a setting that \<open>int()\<close> rejects.
\<close>

record config =
  date_format :: string
  api_base_url :: string
  organization :: string
  repository :: string
  json_file :: "string option"
  markdown_file :: "string option"
  begin_string :: string
  end_string :: string
  tag_column :: "int option"
  date_column :: "int option"

text \<open>A deletion record, \<open>{'tags': [...], 'date': '...'}\<close>.\<close>

record item =
  tags :: "string list"
  date :: string

subsection \<open>The Markdown reader\<close>

definition line_is_ignored :: "config \<Rightarrow> string \<Rightarrow> bool" where
  "line_is_ignored cfg line =
     (startswith line (begin_string cfg) \<or> startswith line (end_string cfg))"

definition parse_md_line :: "config \<Rightarrow> string \<Rightarrow> error + item" where
  "parse_md_line cfg md_line =
     (let md = split_on (CHR ''|'') (strip md_line) in
      case tag_column cfg of
        None \<Rightarrow> Inl ValueError
      | Some tc \<Rightarrow>
          if tc > int (length md) - 1 then Inl (IndexError ''tag column is out of range.'')
          else
            (case date_column cfg of
               None \<Rightarrow> Inl ValueError
             | Some dc \<Rightarrow>
                 if dc > int (length md) - 1
                 then Inl (IndexError ''date column is out of range.'')
                 else
                   (case py_index md tc of
                      Inl e \<Rightarrow> Inl e
                    | Inr tags0 \<Rightarrow>
                        (case py_index md dc of
                           Inl e \<Rightarrow> Inl e
                         | Inr date0 \<Rightarrow>
                             Inr \<lparr>tags = split_on (CHR '','')
                                           (remove_char (CHR 0x60) (strip tags0)),
                                  date = strip date0\<rparr>))))"

text \<open>
  The loop of \<open>get_readme_table\<close> over the lines of the file, with its three variables
  \<open>parsing\<close>, \<open>items\<close> and \<open>linenum\<close>.
\<close>

fun readme_loop ::
  "config \<Rightarrow> string list \<Rightarrow> bool \<Rightarrow> item list \<Rightarrow> nat \<Rightarrow> error + item list" where
  "readme_loop cfg [] parsing items linenum = Inr items"
| "readme_loop cfg (line # rest) parsing items linenum =
     (let parsing1 = (if startswith line (begin_string cfg) then True else parsing);
          parsing2 = (if startswith line (end_string cfg) then False else parsing1)
      in
        if parsing1 \<and> startswith line ''|'' \<and> \<not> line_is_ignored cfg line
           \<and> strip line \<noteq> []
        then
          (if linenum + 1 > 2
           then (case parse_md_line cfg line of
                   Inl e \<Rightarrow> Inl e
                 | Inr it \<Rightarrow> readme_loop cfg rest parsing2 (items @ [it]) (linenum + 1))
           else readme_loop cfg rest parsing2 items (linenum + 1))
        else readme_loop cfg rest parsing2 items linenum)"

subsection \<open>Glob matching: \<open>fnmatch.fnmatch\<close>\<close>

text \<open>
  \<open>fnmatch\<close> translates the pattern and matches the whole name against the translation:
  \<open>*\<close> matches any run of characters, \<open>?\<close> one character, \<open>[seq]\<close> one character of
  \<open>seq\<close>, \<open>[!seq]\<close> one character not in \<open>seq\<close>; in \<open>seq\<close>, \<open>a-b\<close> is a range; a \<open>[\<close> with
  no closing \<open>]\<close> stands for itself. On POSIX, \<open>os.path.normcase\<close> changes nothing, so
  matching is case-sensitive.
\<close>

datatype setitem = Single char | Range char char

datatype tok = Star | AnyChar | Lit char | CharSet bool "setitem list"

fun parse_set_items :: "string \<Rightarrow> setitem list" where
  "parse_set_items (a # m # b # rest) =
     (if m = CHR ''-'' then Range a b # parse_set_items rest
      else Single a # parse_set_items (m # b # rest))"
| "parse_set_items (a # rest) = Single a # parse_set_items rest"
| "parse_set_items [] = []"

fun set_member :: "char \<Rightarrow> setitem list \<Rightarrow> bool" where
  "set_member c [] = False"
| "set_member c (Single a # its) = (c = a \<or> set_member c its)"
| "set_member c (Range lo hi # its) =
     (((of_char lo :: nat) \<le> of_char c \<and> (of_char c :: nat) \<le> of_char hi)
      \<or> set_member c its)"

function translate :: "string \<Rightarrow> tok list" where
  "translate [] = []"
| "translate (c # cs) =
     (if c = CHR ''*'' then Star # translate cs
      else if c = CHR ''?'' then AnyChar # translate cs
      else if c = CHR ''['' then
        (let neg = startswith cs ''!'';
             cs1 = (if neg then tl cs else cs);
             first = (if startswith cs1 '']'' then '']'' else []);
             cs2 = drop (length first) cs1;
             stuff = first @ takeWhile (\<lambda>x. x \<noteq> CHR '']'') cs2;
             rest = dropWhile (\<lambda>x. x \<noteq> CHR '']'') cs2
         in if rest = [] then Lit c # translate cs
            else CharSet neg (parse_set_items stuff) # translate (tl rest))
      else Lit c # translate cs)"
  by pat_completeness auto
termination
proof (relation "measure length")
  show "wf (measure length)" by simp
next
  fix c :: char and cs :: string
  show "(cs, c # cs) \<in> measure length" by simp
next
  fix c :: char and cs :: string
  show "(cs, c # cs) \<in> measure length" by simp
next
  fix c :: char and cs :: string
  show "(cs, c # cs) \<in> measure length" by simp
next
  fix c :: char and cs x xa xb xc xd xe :: string and xn :: bool
  assume "xe = dropWhile (\<lambda>x. x \<noteq> CHR '']'') xc"
    and "xc = drop (length xb) xa"
    and "xa = (if xn then tl cs else cs)"
  then have "length xe \<le> length cs"
    using length_dropWhile_le [of "\<lambda>x. x \<noteq> CHR '']''" xc] by (auto split: if_splits)
  then show "(tl xe, c # cs) \<in> measure length" by simp
next
  fix c :: char and cs :: string
  show "(cs, c # cs) \<in> measure length" by simp
qed

fun matches :: "tok list \<Rightarrow> string \<Rightarrow> bool" where
  "matches [] s = (s = [])"
| "matches (Star # ts) [] = matches ts []"
| "matches (Star # ts) (c # cs) = (matches ts (c # cs) \<or> matches (Star # ts) cs)"
| "matches (AnyChar # ts) (c # cs) = matches ts cs"
| "matches (Lit x # ts) (c # cs) = (x = c \<and> matches ts cs)"
| "matches (CharSet neg its # ts) (c # cs) = (set_member c its \<noteq> neg \<and> matches ts cs)"
| "matches (t # ts) [] = False"

definition fnmatch :: "string \<Rightarrow> string \<Rightarrow> bool" where
  \<comment> \<open>\<open>fnmatch.fnmatch(name, pat)\<close>\<close>
  "fnmatch name pat = matches (translate pat) name"

subsection \<open>The HTTP session\<close>

text \<open>
  A response is its status code and what \<open>.json()\<close> gives on its body: the token of the
  login endpoint, a page of the tag listing (\<open>results\<close>: the names, \<open>next\<close>: a URL or
  \<open>null\<close>), or anything else, on which reading the expected keys raises.
\<close>

datatype body =
    Malformed
  | TokenBody string
  | PageBody "string list" "string option"

record response =
  status :: nat
  body :: body

datatype request =
    POST string                                   \<comment> \<open>URL (the body holds the credentials)\<close>
  | GET string "(string \<times> string) list" string   \<comment> \<open>URL, query parameters, bearer token\<close>
  | DELETE string string                          \<comment> \<open>URL, bearer token\<close>

text \<open>
  The world outside the script: the responses the server still has to give, in order,
  the requests sent so far, and the lines printed so far.
\<close>

record world =
  script :: "response list"
  sent :: "request list"
  stdout :: "string list"

definition session_request :: "request \<Rightarrow> world \<Rightarrow> (error + response) \<times> world" where
  \<comment> \<open>\<open>session.get\<close>, \<open>session.post\<close>, \<open>session.delete\<close>\<close>
  "session_request rq w =
     (case script w of
        [] \<Rightarrow> (Inl ConnectionError, w\<lparr>sent := sent w @ [rq]\<rparr>)
      | r # rs \<Rightarrow> (Inr r, w\<lparr>script := rs, sent := sent w @ [rq]\<rparr>))"

definition raise_for_status :: "response \<Rightarrow> error + unit" where
  \<comment> \<open>\<open>requests\<close> raises for the client errors 4xx and the server errors 5xx\<close>
  "raise_for_status r =
     (if 400 \<le> status r \<and> status r < 600 then Inl (HTTPError (status r)) else Inr ())"

definition print :: "string \<Rightarrow> world \<Rightarrow> world" where
  "print line w = w\<lparr>stdout := stdout w @ [line]\<rparr>"

subsection \<open>The registry client\<close>

definition docker_hub_token :: "config \<Rightarrow> world \<Rightarrow> (error + string) \<times> world" where
  "docker_hub_token cfg w =
     (case session_request (POST (api_base_url cfg @ ''/users/login'')) w of
        (Inl e, w1) \<Rightarrow> (Inl e, w1)
      | (Inr auth, w1) \<Rightarrow>
          (case raise_for_status auth of
             Inl e \<Rightarrow> (Inl e, w1)
           | Inr u \<Rightarrow>
               (case body auth of
                  TokenBody t \<Rightarrow> (Inr t, w1)
                | _ \<Rightarrow> (Inl BodyError, w1))))"

definition truthy :: "string option \<Rightarrow> bool" where
  \<comment> \<open>\<open>if resp['next']:\<close> holds for a string that is not empty\<close>
  "truthy nxt = (case nxt of None \<Rightarrow> False | Some u \<Rightarrow> u \<noteq> [])"

text \<open>
  The pagination loop of \<open>tags_matching_pattern\<close>, entered with the response in hand.
  An iteration reads the page and, when \<open>next\<close> is set, fetches the next response for the
  following iteration. The result is \<open>None\<close> where the function ends without reaching a
  \<open>return\<close> statement.
\<close>

function pagination ::
  "string \<Rightarrow> string \<Rightarrow> response \<Rightarrow> string list \<Rightarrow> world
   \<Rightarrow> (error + string list option) \<times> world" where
  "pagination pattern token resp matching_tags w =
     (case body resp of
        PageBody results nxt \<Rightarrow>
          (let matching_tags1 = matching_tags @ filter (\<lambda>name. fnmatch name pattern) results
           in if truthy nxt
              then (case session_request (GET (the nxt) [] token) w of
                      (Inl e, w1) \<Rightarrow> (Inl e, w1)
                    | (Inr resp1, w1) \<Rightarrow>
                        (case raise_for_status resp1 of
                           Inl e \<Rightarrow>
                             if e = HTTPError 404 then (Inr None, w1) else (Inl e, w1)
                         | Inr u \<Rightarrow> pagination pattern token resp1 matching_tags1 w1))
              else (Inr (Some matching_tags1), w))
      | _ \<Rightarrow> (Inl BodyError, w))"
  by pat_completeness auto
termination
  by (relation "measure (\<lambda>(pattern, token, resp, matching_tags, w). length (script w))")
     (auto simp: session_request_def split: list.splits)

declare pagination.simps [simp del]

definition tags_url :: "config \<Rightarrow> string" where
  "tags_url cfg =
     ''/namespaces/'' @ organization cfg @ ''/repositories/'' @ repository cfg @ ''/tags''"

definition list_params :: "(string \<times> string) list" where
  "list_params = [(''page_size'', ''100''), (''ordering'', ''name'')]"

definition tags_matching_pattern ::
  "config \<Rightarrow> string \<Rightarrow> world \<Rightarrow> (error + string list option) \<times> world" where
  "tags_matching_pattern cfg pattern w =
     (case docker_hub_token cfg w of
        (Inl e, w1) \<Rightarrow> (Inl e, w1)
      | (Inr token, w1) \<Rightarrow>
          (case session_request (GET (api_base_url cfg @ tags_url cfg) list_params token) w1 of
             (Inl e, w2) \<Rightarrow> (Inl e, w2)
           | (Inr resp, w2) \<Rightarrow> pagination pattern token resp [] w2))"

subsection \<open>The source readers\<close>

text \<open>
  What the run finds outside the session: the clock reading \<open>now\<close> taken once at
  start-up, the date parser of the library (\<open>None\<close> where \<open>strptime\<close> raises), and the
  two ways a file is read: \<open>json_load path\<close> is \<open>list(json.load(f))\<close> on the file at
  \<open>path\<close>, \<open>readlines path\<close> its lines, each an error where the file cannot be read so.
  Instants are points of the time line of naive \<open>datetime\<close> values.
\<close>

record env =
  now :: int
  strptime :: "string \<Rightarrow> string \<Rightarrow> int option"
  json_load :: "string \<Rightarrow> error + item list"
  readlines :: "string \<Rightarrow> error + string list"

definition get_readme_table :: "env \<Rightarrow> config \<Rightarrow> error + item list" where
  "get_readme_table ev cfg =
     (case markdown_file cfg of
        None \<Rightarrow> Inl TypeError
      | Some path \<Rightarrow>
          (case readlines ev path of
             Inl e \<Rightarrow> Inl e
           | Inr md_file \<Rightarrow> readme_loop cfg md_file False [] 0))"

definition json_tags :: "env \<Rightarrow> config \<Rightarrow> error + item list" where
  "json_tags ev cfg =
     (case json_file cfg of
        None \<Rightarrow> Inl TypeError
      | Some path \<Rightarrow> json_load ev path)"

definition get_tag_list :: "env \<Rightarrow> config \<Rightarrow> error + item list" where
  "get_tag_list ev cfg =
     (case (if truthy (json_file cfg) then json_tags ev cfg else Inr []) of
        Inl e \<Rightarrow> Inl e
      | Inr js \<Rightarrow>
          (case (if truthy (markdown_file cfg) then get_readme_table ev cfg else Inr []) of
             Inl e \<Rightarrow> Inl e
           | Inr ms \<Rightarrow> Inr (js @ ms)))"

subsection \<open>The date evaluator and the orchestrator\<close>

definition parse_date :: "env \<Rightarrow> config \<Rightarrow> string \<Rightarrow> error + int" where
  "parse_date ev cfg d =
     (case strptime ev d (date_format cfg) of
        None \<Rightarrow> Inl ValueError
      | Some t \<Rightarrow> Inr t)"

text \<open>The inner loop of \<open>tags_to_delete\<close>, over the patterns of one record.\<close>

fun patterns_loop ::
  "config \<Rightarrow> string list \<Rightarrow> string list option list \<Rightarrow> world
   \<Rightarrow> (error + string list option list) \<times> world" where
  "patterns_loop cfg [] tags_list w = (Inr tags_list, w)"
| "patterns_loop cfg (pattern # rest) tags_list w =
     (case tags_matching_pattern cfg (strip pattern) w of
        (Inl e, w1) \<Rightarrow> (Inl e, w1)
      | (Inr t, w1) \<Rightarrow> patterns_loop cfg rest (tags_list @ [t]) w1)"

text \<open>The outer loop of \<open>tags_to_delete\<close>, over the records.\<close>

fun items_loop ::
  "env \<Rightarrow> config \<Rightarrow> item list \<Rightarrow> string list option list \<Rightarrow> world
   \<Rightarrow> (error + string list option list) \<times> world" where
  "items_loop ev cfg [] tags_list w = (Inr tags_list, w)"
| "items_loop ev cfg (it # rest) tags_list w =
     (case parse_date ev cfg (date it) of
        Inl e \<Rightarrow> (Inl e, w)
      | Inr d \<Rightarrow>
          if now ev \<ge> d
          then (case patterns_loop cfg (tags it) tags_list w of
                  (Inl e, w1) \<Rightarrow> (Inl e, w1)
                | (Inr tags_list1, w1) \<Rightarrow> items_loop ev cfg rest tags_list1 w1)
          else items_loop ev cfg rest tags_list w)"

text \<open>
  \<open>[i for row in tags_list for i in row]\<close>: a row that is \<open>None\<close> cannot be iterated.
\<close>

fun flatten :: "string list option list \<Rightarrow> error + string list" where
  "flatten [] = Inr []"
| "flatten (None # rows) = Inl TypeError"
| "flatten (Some row # rows) =
     (case flatten rows of
        Inl e \<Rightarrow> Inl e
      | Inr r \<Rightarrow> Inr (row @ r))"

definition tags_to_delete :: "env \<Rightarrow> config \<Rightarrow> world \<Rightarrow> (error + string list) \<times> world" where
  "tags_to_delete ev cfg w =
     (case get_tag_list ev cfg of
        Inl e \<Rightarrow> (Inl e, w)
      | Inr items \<Rightarrow>
          (case items_loop ev cfg items [] w of
             (Inl e, w1) \<Rightarrow> (Inl e, w1)
           | (Inr tags_list, w1) \<Rightarrow>
               (if length tags_list > 0 then flatten tags_list else Inr [], w1)))"

definition delete_url :: "config \<Rightarrow> string \<Rightarrow> string" where
  "delete_url cfg tag =
     ''/namespaces/'' @ organization cfg @ ''/repositories/'' @ repository cfg
       @ ''/tags/'' @ tag"

text \<open>The loop of \<open>delete_expired_tags\<close>, with its variable \<open>deleted\<close>.\<close>

fun delete_loop ::
  "config \<Rightarrow> string \<Rightarrow> string list \<Rightarrow> string list \<Rightarrow> world
   \<Rightarrow> (error + string list) \<times> world" where
  "delete_loop cfg token [] deleted w = (Inr deleted, w)"
| "delete_loop cfg token (tag # rest) deleted w =
     (case session_request (DELETE (api_base_url cfg @ delete_url cfg tag) token) w of
        (Inl e, w1) \<Rightarrow> (Inl e, w1)
      | (Inr resp, w1) \<Rightarrow>
          (case raise_for_status resp of
             Inl e \<Rightarrow> (Inl e, w1)
           | Inr u \<Rightarrow> delete_loop cfg token rest (deleted @ [tag]) w1))"

definition delete_expired_tags ::
  "env \<Rightarrow> config \<Rightarrow> world \<Rightarrow> (error + string list) \<times> world" where
  "delete_expired_tags ev cfg w =
     (case docker_hub_token cfg w of
        (Inl e, w1) \<Rightarrow> (Inl e, w1)
      | (Inr token, w1) \<Rightarrow>
          (case tags_to_delete ev cfg w1 of
             (Inl e, w2) \<Rightarrow> (Inl e, w2)
           | (Inr ts, w2) \<Rightarrow> delete_loop cfg token ts [] w2))"

definition deleted_line :: "config \<Rightarrow> string \<Rightarrow> string" where
  \<comment> \<open>\<open>f"> Deleted {img_tag}"\<close>\<close>
  "deleted_line cfg tag = ''> Deleted '' @ organization cfg @ ''/'' @ repository cfg @ '':'' @ tag"

text \<open>
  The body of the script under \<open>__main__\<close>. An exception that reaches the top ends the
  process with a non-zero exit status: that is the result \<open>Inl\<close>.
\<close>

definition main :: "env \<Rightarrow> config \<Rightarrow> world \<Rightarrow> (error + unit) \<times> world" where
  "main ev cfg w =
     (case tags_to_delete ev cfg w of
        (Inl e, w1) \<Rightarrow> (Inl e, w1)
      | (Inr ts, w1) \<Rightarrow>
          if length ts > 0
          then (case delete_expired_tags ev cfg w1 of
                  (Inl e, w2) \<Rightarrow> (Inl e, w2)
                | (Inr deleted, w2) \<Rightarrow> (Inr (), fold (\<lambda>tag. print (deleted_line cfg tag)) ts w2))
          else (Inr (), print ''There are no tags to delete.'' w1))"

subsection \<open>Observations on a run\<close>

text \<open>
  The requests of the log that delete a tag, and those that start a listing (the request
  for the first page carries the query parameters, a request for a \<open>next\<close> link none).
  The errors that come from the session: a status, no answer, an unexpected body.
\<close>

definition is_delete :: "request \<Rightarrow> bool" where
  "is_delete rq = (case rq of DELETE u t \<Rightarrow> True | _ \<Rightarrow> False)"

definition starts_listing :: "request \<Rightarrow> bool" where
  "starts_listing rq = (case rq of GET u ps t \<Rightarrow> ps = list_params | _ \<Rightarrow> False)"


subsection \<open>The rows of a Markdown file\<close>

text \<open>
  The candidate rows of a file, as the spec names them: the lines inside a region opened
  by a begin marker and not yet closed by an end marker that start with \<open>|\<close>, are no
  marker lines and are not blank. \<open>parsing_after\<close> tells whether a region is open
  behind the given lines, \<open>parse_rows\<close> parses rows in order up to the first error.
\<close>

fun candidate_rows :: "config \<Rightarrow> bool \<Rightarrow> string list \<Rightarrow> string list" where
  "candidate_rows cfg parsing [] = []"
| "candidate_rows cfg parsing (line # rest) =
     (let parsing1 = (parsing \<or> startswith line (begin_string cfg));
          parsing2 = (parsing1 \<and> \<not> startswith line (end_string cfg))
      in (if parsing1 \<and> startswith line ''|'' \<and> \<not> line_is_ignored cfg line
             \<and> strip line \<noteq> []
          then [line] else [])
         @ candidate_rows cfg parsing2 rest)"

fun parsing_after :: "config \<Rightarrow> bool \<Rightarrow> string list \<Rightarrow> bool" where
  "parsing_after cfg parsing [] = parsing"
| "parsing_after cfg parsing (line # rest) =
     parsing_after cfg
       ((parsing \<or> startswith line (begin_string cfg)) \<and> \<not> startswith line (end_string cfg))
       rest"

fun parse_rows :: "config \<Rightarrow> string list \<Rightarrow> error + item list" where
  "parse_rows cfg [] = Inr []"
| "parse_rows cfg (row # rows) =
     (case parse_md_line cfg row of
        Inl e \<Rightarrow> Inl e
      | Inr it \<Rightarrow>
          (case parse_rows cfg rows of
             Inl e \<Rightarrow> Inl e
           | Inr its \<Rightarrow> Inr (it # its)))"

text \<open>
  The cells of a table row, as Markdown has them: the pieces between the pipes, without
  what stands before the opening pipe and without the empty piece behind a closing pipe.
\<close>

definition row_cells :: "string \<Rightarrow> string list" where
  "row_cells line =
     (let inner = tl (split_on (CHR ''|'') (strip line))
      in if inner \<noteq> [] \<and> last inner = [] then butlast inner else inner)"

subsection \<open>Values for the examples\<close>

definition cfg_demo :: config where
  "cfg_demo =
     \<lparr>date_format = ''%B %d, %Y'', api_base_url = ''https://hub.docker.com/v2'',
      organization = ''org'', repository = ''repo'',
      json_file = Some ''deletions.json'', markdown_file = None,
      begin_string = ''<!-- BEGIN deletion_table -->'',
      end_string = ''<!-- END deletion_table -->'',
      tag_column = Some 1, date_column = Some 2\<rparr>"

text \<open>
  An environment whose JSON file holds the given records, at a \<open>now\<close> in November 2023
  (instants in seconds), with the values of \<open>strptime\<close> on two date strings in the
  default format and its refusal of everything else.
\<close>

definition env_demo :: "item list \<Rightarrow> env" where
  "env_demo items =
     \<lparr>now = 1700000000,
      strptime = (\<lambda>d fmt. if fmt = ''%B %d, %Y''
                           then map_of [(''January 01, 2020'', 1577836800),
                                        (''January 01, 2100'', 4102444800)] d
                           else None),
      json_load = (\<lambda>path. if path = ''deletions.json'' then Inr items else Inl OSError),
      readlines = (\<lambda>path. Inl OSError)\<rparr>"

definition token_response :: response where
  "token_response = \<lparr>status = 200, body = TokenBody ''secret''\<rparr>"

definition page_response :: "string list \<Rightarrow> string option \<Rightarrow> response" where
  "page_response names nxt = \<lparr>status = 200, body = PageBody names nxt\<rparr>"

definition world0 :: "response list \<Rightarrow> world" where
  \<comment> \<open>the start of a run against a server that will give these responses\<close>
  "world0 rs = \<lparr>script = rs, sent = [], stdout = []\<rparr>"

text \<open>
  The responses of a run with one due record whose pattern matches three tags \<open>a\<close>,
  \<open>b\<close>, \<open>c\<close>: the listing for \<open>__main__\<close>, the login and the listing of
  \<open>delete_expired_tags\<close>, then the answers to three delete requests, the second with the
  given status.
\<close>

definition three_tags_script :: "nat \<Rightarrow> response list" where
  "three_tags_script second_status =
     [token_response, page_response [''a'', ''b'', ''c''] None,
      token_response,
      token_response, page_response [''a'', ''b'', ''c''] None,
      \<lparr>status = 204, body = Malformed\<rparr>,
      \<lparr>status = second_status, body = Malformed\<rparr>,
      \<lparr>status = 204, body = Malformed\<rparr>]"

text \<open>
  A Markdown file with two regions, each a table with header, separator and one row, and
  a line starting with \<open>|\<close> between the regions.
\<close>

definition two_tables :: "string list" where
  "two_tables =
     map (\<lambda>l. l @ [CHR 0x0A])
       [''# Deprecated tags'',
        ''<!-- BEGIN deletion_table -->'',
        ''| Tags | Date |'',
        ''| --- | --- |'',
        ''| `1.*` | January 01, 2020 |'',
        ''<!-- END deletion_table -->'',
        ''| not | a row |'',
        ''<!-- BEGIN deletion_table -->'',
        ''| Tags | Date |'',
        ''| --- | --- |'',
        ''| `2.*`, `3.*` | January 01, 2100 |'',
        ''<!-- END deletion_table -->'']"



section \<open>Properties\<close>

subsection \<open>What a call does to the world\<close>

lemma session_request_Nil:
  "script w = [] \<Longrightarrow> session_request rq w = (Inl ConnectionError, w\<lparr>sent := sent w @ [rq]\<rparr>)"
  by (simp add: session_request_def)

lemma session_request_Cons:
  "script w = r # rs \<Longrightarrow> session_request rq w = (Inr r, w\<lparr>script := rs, sent := sent w @ [rq]\<rparr>)"
  by (simp add: session_request_def)

lemma session_request_log:
  assumes "session_request rq w = (x, w1)"
  shows "sent w1 = sent w @ [rq]" and "stdout w1 = stdout w"
  using assms by (auto simp: session_request_def split: list.splits)


lemma docker_hub_token_log:
  assumes "docker_hub_token cfg w = (x, w1)"
  shows "sent w1 = sent w @ [POST (api_base_url cfg @ ''/users/login'')]" and "stdout w1 = stdout w"
  using assms
  by (auto simp: docker_hub_token_def split: prod.splits sum.splits body.splits
           dest: session_request_log)

lemma pagination_log:
  "pagination pattern token resp acc w = (x, w1) \<Longrightarrow>
   \<exists>urls. sent w1 = sent w @ map (\<lambda>u. GET u [] token) urls \<and> stdout w1 = stdout w"
proof (induction pattern token resp acc w rule: pagination.induct)
  case (1 pattern token resp acc w)
  show ?case
  proof (cases "body resp")
    case Malformed
    with "1.prems" show ?thesis by (simp add: pagination.simps)
  next
    case (TokenBody t)
    with "1.prems" show ?thesis by (simp add: pagination.simps)
  next
    case (PageBody results nxt)
    show ?thesis
    proof (cases "truthy nxt")
      case False
      with PageBody "1.prems" show ?thesis by (auto simp: pagination.simps)
    next
      case True
      obtain y w2 where rq: "session_request (GET (the nxt) [] token) w = (y, w2)"
        by (cases "session_request (GET (the nxt) [] token) w")
      note lg = session_request_log [OF rq]
      show ?thesis
      proof (cases y)
        case (Inl e)
        with PageBody True rq "1.prems" lg show ?thesis
          by (auto simp: pagination.simps intro: exI [of _ "[the nxt]"])
      next
        case (Inr resp1)
        show ?thesis
        proof (cases "raise_for_status resp1")
          case (Inl e)
          with PageBody True rq Inr "1.prems" lg show ?thesis
            by (auto simp: pagination.simps split: if_splits intro: exI [of _ "[the nxt]"])
        next
          case Inr2: (Inr u)
          from PageBody True rq Inr Inr2 "1.prems"
          have "pagination pattern token resp1
                  (acc @ filter (\<lambda>name. fnmatch name pattern) results) w2 = (x, w1)"
            by (simp add: pagination.simps)
          from "1.IH" [OF PageBody refl True rq [symmetric] Inr Inr2 this]
          obtain urls where "sent w1 = sent w2 @ map (\<lambda>u. GET u [] token) urls"
            and "stdout w1 = stdout w2" by blast
          with lg show ?thesis
            by (auto intro: exI [of _ "the nxt # urls"])
        qed
      qed
    qed
  qed
qed



lemma raise_for_status_ok:
  "raise_for_status r = Inr u \<longleftrightarrow> \<not> (400 \<le> status r \<and> status r < 600)"
  by (auto simp: raise_for_status_def)




lemma pagination_requests:
  assumes "pagination pattern token resp acc w = (x, w1)"
  shows "filter is_delete (sent w1) = filter is_delete (sent w)"
    and "filter starts_listing (sent w1) = filter starts_listing (sent w)"
    and "stdout w1 = stdout w"
proof -
  from pagination_log [OF assms] obtain urls
    where s: "sent w1 = sent w @ map (\<lambda>u. GET u [] token) urls" and o: "stdout w1 = stdout w"
    by blast
  have "filter is_delete (map (\<lambda>u. GET u [] token) urls) = []"
    by (induction urls) (simp_all add: is_delete_def)
  with s show "filter is_delete (sent w1) = filter is_delete (sent w)" by simp
  have "filter starts_listing (map (\<lambda>u. GET u [] token) urls) = []"
    by (induction urls) (simp_all add: starts_listing_def list_params_def)
  with s show "filter starts_listing (sent w1) = filter starts_listing (sent w)" by simp
  from o show "stdout w1 = stdout w" .
qed


lemma tags_matching_pattern_requests:
  assumes "tags_matching_pattern cfg pattern w = (x, w1)"
  shows "filter is_delete (sent w1) = filter is_delete (sent w)"
    and "stdout w1 = stdout w"
proof -
  obtain y w2 where tk: "docker_hub_token cfg w = (y, w2)"
    by (cases "docker_hub_token cfg w")
  note l1 = docker_hub_token_log [OF tk]
  have "filter is_delete (sent w1) = filter is_delete (sent w) \<and> stdout w1 = stdout w"
  proof (cases y)
    case (Inl e)
    with tk assms l1 show ?thesis
      by (auto simp: tags_matching_pattern_def is_delete_def)
  next
    case (Inr token)
    obtain z w3 where rq:
      "session_request (GET (api_base_url cfg @ tags_url cfg) list_params token) w2 = (z, w3)"
      by (cases "session_request (GET (api_base_url cfg @ tags_url cfg) list_params token) w2")
    note l2 = session_request_log [OF rq]
    show ?thesis
    proof (cases z)
      case Inl2: (Inl e)
      with tk Inr rq assms l1 l2 show ?thesis
        by (auto simp: tags_matching_pattern_def is_delete_def)
    next
      case Inr2: (Inr resp)
      with tk Inr rq assms have "pagination pattern token resp [] w3 = (x, w1)"
        by (simp add: tags_matching_pattern_def)
      from pagination_requests [OF this] l1 l2 show ?thesis
        by (simp add: is_delete_def)
    qed
  qed
  then show "filter is_delete (sent w1) = filter is_delete (sent w)"
    and "stdout w1 = stdout w" by simp_all
qed

lemma tags_matching_pattern_listing:
  assumes "tags_matching_pattern cfg pattern w = (Inr t, w1)"
  shows "length (filter starts_listing (sent w1)) = Suc (length (filter starts_listing (sent w)))"
proof -
  from assms obtain token w2 resp w3
    where tk: "docker_hub_token cfg w = (Inr token, w2)"
      and rq: "session_request (GET (api_base_url cfg @ tags_url cfg) list_params token) w2
               = (Inr resp, w3)"
      and pg: "pagination pattern token resp [] w3 = (Inr t, w1)"
    by (auto simp: tags_matching_pattern_def split: prod.splits sum.splits)
  from docker_hub_token_log [OF tk] session_request_log [OF rq] pagination_requests [OF pg]
  show ?thesis by (simp add: starts_listing_def)
qed


lemma patterns_loop_requests:
  "patterns_loop cfg ps acc w = (x, w1) \<Longrightarrow>
   filter is_delete (sent w1) = filter is_delete (sent w) \<and> stdout w1 = stdout w"
proof (induction ps arbitrary: acc w)
  case Nil
  then show ?case by simp
next
  case (Cons p ps)
  obtain y w2 where t: "tags_matching_pattern cfg (strip p) w = (y, w2)"
    by (cases "tags_matching_pattern cfg (strip p) w")
  note r = tags_matching_pattern_requests [OF t]
  show ?case
  proof (cases y)
    case (Inl e)
    with t Cons.prems r show ?thesis by auto
  next
    case (Inr row)
    with t Cons.prems have "patterns_loop cfg ps (acc @ [row]) w2 = (x, w1)" by simp
    from Cons.IH [OF this] r show ?thesis by simp
  qed
qed

lemma patterns_loop_listing:
  "patterns_loop cfg ps acc w = (Inr acc1, w1) \<Longrightarrow>
   length (filter starts_listing (sent w1)) = length (filter starts_listing (sent w)) + length ps"
proof (induction ps arbitrary: acc w)
  case Nil
  then show ?case by simp
next
  case (Cons p ps)
  from Cons.prems obtain row w2
    where t: "tags_matching_pattern cfg (strip p) w = (Inr row, w2)"
      and l: "patterns_loop cfg ps (acc @ [row]) w2 = (Inr acc1, w1)"
    by (auto split: prod.splits sum.splits)
  from Cons.IH [OF l] tags_matching_pattern_listing [OF t] show ?case by simp
qed

lemma patterns_loop_append:
  "patterns_loop cfg (ps @ qs) acc w =
     (case patterns_loop cfg ps acc w of
        (Inl e, w1) \<Rightarrow> (Inl e, w1)
      | (Inr acc1, w1) \<Rightarrow> patterns_loop cfg qs acc1 w1)"
  by (induction ps arbitrary: acc w) (auto split: prod.splits sum.splits)

subsection \<open>Pagination\<close>

text \<open>
  C1 (fails on the code). The server gives three pages, each with a \<open>next\<close> link, and
  answers 404 to the request for the fourth. The loop is left by \<open>break\<close>, past the only
  \<open>return\<close> statement, so \<open>tags_matching_pattern\<close> returns \<open>None\<close> and not the
  names \<open>1.0\<close>, \<open>1.1\<close>, \<open>1.2\<close> matched on the three pages; the caller then iterates
  over \<open>None\<close> and the run ends with \<open>TypeError\<close>.
\<close>

theorem not_found_on_next_link_returns_None:
  "fst (tags_matching_pattern cfg_demo ''1.*''
          (world0 [token_response,
                   page_response [''1.0'', ''2.0''] (Some ''https://hub.docker.com/v2/p2''),
                   page_response [''1.1''] (Some ''https://hub.docker.com/v2/p3''),
                   page_response [''1.2''] (Some ''https://hub.docker.com/v2/p4''),
                   \<lparr>status = 404, body = Malformed\<rparr>])) = Inr None
   \<and> fst (main (env_demo [\<lparr>tags = [''1.*''], date = ''January 01, 2020''\<rparr>]) cfg_demo
          (world0 [token_response,
                   page_response [''1.0'', ''2.0''] (Some ''https://hub.docker.com/v2/p2''),
                   page_response [''1.1''] (Some ''https://hub.docker.com/v2/p3''),
                   page_response [''1.2''] (Some ''https://hub.docker.com/v2/p4''),
                   \<lparr>status = 404, body = Malformed\<rparr>])) = Inl TypeError"
  by code_simp

text \<open>
  C2 (fails on the code). The status of the response to the first page request is never
  looked at: \<open>raise_for_status\<close> is called on the responses to \<open>next\<close> links only. A
  first response with status 500 is read as a page: with a body that is no page the
  listing ends with the error of reading it, not with \<open>HTTPError 500\<close>; with a body
  that is a page the listing returns its names as if the request had succeeded.
\<close>

theorem first_page_status_is_not_checked:
  "fst (tags_matching_pattern cfg_demo ''1.*''
          (world0 [token_response, \<lparr>status = 500, body = Malformed\<rparr>])) = Inl BodyError
   \<and> fst (tags_matching_pattern cfg_demo ''1.*''
          (world0 [token_response, \<lparr>status = 500, body = PageBody [''1.0'', ''2.0''] None\<rparr>]))
       = Inr (Some [''1.0''])"
  by code_simp

subsection \<open>Due records\<close>


lemma items_loop_due:
  "\<forall>it\<in>set items. parse_date ev cfg (date it) = Inr (D it) \<Longrightarrow>
   items_loop ev cfg items acc w =
     patterns_loop cfg (concat (map tags (filter (\<lambda>it. D it \<le> now ev) items))) acc w"
proof (induction items arbitrary: acc w)
  case Nil
  then show ?case by simp
next
  case (Cons it items)
  then have d: "parse_date ev cfg (date it) = Inr (D it)"
    and rest: "\<forall>it\<in>set items. parse_date ev cfg (date it) = Inr (D it)" by simp_all
  show ?case
  proof (cases "D it \<le> now ev")
    case True
    with d Cons.IH [OF rest] show ?thesis
      by (simp add: patterns_loop_append split: prod.splits sum.splits)
  next
    case False
    with d Cons.IH [OF rest] show ?thesis by simp
  qed
qed

lemma get_tag_list_demo: "get_tag_list (env_demo items) cfg_demo = Inr items"
  by (simp add: get_tag_list_def json_tags_def truthy_def env_demo_def cfg_demo_def)



subsection \<open>Malformed dates\<close>


lemma parse_date_None:
  "strptime ev d (date_format cfg) = None \<Longrightarrow> parse_date ev cfg d = Inl ValueError"
  by (simp add: parse_date_def)


lemma items_loop_requests:
  "items_loop ev cfg items acc w = (x, w1) \<Longrightarrow>
   filter is_delete (sent w1) = filter is_delete (sent w) \<and> stdout w1 = stdout w"
proof (induction items arbitrary: acc w)
  case Nil
  then show ?case by simp
next
  case (Cons it items)
  show ?case
  proof (cases "parse_date ev cfg (date it)")
    case (Inl e)
    with Cons.prems show ?thesis by simp
  next
    case (Inr d)
    show ?thesis
    proof (cases "d \<le> now ev")
      case False
      with Inr Cons.prems have "items_loop ev cfg items acc w = (x, w1)" by simp
      from Cons.IH [OF this] show ?thesis .
    next
      case True
      obtain y w2 where pl: "patterns_loop cfg (tags it) acc w = (y, w2)"
        by (cases "patterns_loop cfg (tags it) acc w")
      note r = patterns_loop_requests [OF pl]
      show ?thesis
      proof (cases y)
        case Inl2: (Inl e)
        with Inr True pl Cons.prems r show ?thesis by auto
      next
        case Inr2: (Inr acc1)
        with Inr True pl Cons.prems have "items_loop ev cfg items acc1 w2 = (x, w1)" by simp
        from Cons.IH [OF this] r show ?thesis by simp
      qed
    qed
  qed
qed



lemma tags_to_delete_requests:
  assumes "tags_to_delete ev cfg w = (x, w1)"
  shows "filter is_delete (sent w1) = filter is_delete (sent w)" and "stdout w1 = stdout w"
proof -
  have "filter is_delete (sent w1) = filter is_delete (sent w) \<and> stdout w1 = stdout w"
  proof (cases "get_tag_list ev cfg")
    case (Inl e)
    with assms show ?thesis by (simp add: tags_to_delete_def)
  next
    case (Inr items)
    obtain y w2 where il: "items_loop ev cfg items [] w = (y, w2)"
      by (cases "items_loop ev cfg items [] w")
    with Inr assms have "w1 = w2"
      by (auto simp: tags_to_delete_def split: sum.splits)
    with items_loop_requests [OF il] show ?thesis by simp
  qed
  then show "filter is_delete (sent w1) = filter is_delete (sent w)" and "stdout w1 = stdout w"
    by simp_all
qed




subsection \<open>How often the tag list is fetched\<close>

text \<open>
  C9 (amended). In an evaluation of \<open>tags_to_delete\<close> that returns, the listing has been
  started once for every pattern of every due record: \<open>tags_matching_pattern\<close> is called
  inside the loop over the patterns of a record.
\<close>

theorem listing_is_fetched_once_per_pattern:
  assumes "get_tag_list ev cfg = Inr items"
    and "\<forall>it\<in>set items. parse_date ev cfg (date it) = Inr (D it)"
    and "tags_to_delete ev cfg w = (Inr ts, w1)"
  shows "length (filter starts_listing (sent w1))
         = length (filter starts_listing (sent w))
           + sum_list (map (\<lambda>it. length (tags it)) (filter (\<lambda>it. D it \<le> now ev) items))"
proof -
  let ?ps = "concat (map tags (filter (\<lambda>it. D it \<le> now ev) items))"
  from assms(1,3) items_loop_due [OF assms(2), of "[]" w]
  obtain rows where "patterns_loop cfg ?ps [] w = (Inr rows, w1)"
    by (auto simp: tags_to_delete_def split: prod.splits sum.splits)
  from patterns_loop_listing [OF this]
  show ?thesis by (simp add: length_concat comp_def)
qed

theorem listing_is_fetched_once_per_pattern_witness:
  "length (filter starts_listing (sent (snd (tags_to_delete
      (env_demo [\<lparr>tags = [''1.*'', ''2.*''], date = ''January 01, 2020''\<rparr>,
                 \<lparr>tags = [''3.*''], date = ''January 01, 2100''\<rparr>])
      cfg_demo
      (world0 [token_response, page_response [''1.0'', ''2.0''] None,
               token_response, page_response [''1.0'', ''2.0''] None]))))) = 2"
proof -
  let ?items = "[\<lparr>tags = [''1.*'', ''2.*''], date = ''January 01, 2020''\<rparr>,
                 \<lparr>tags = [''3.*''], date = ''January 01, 2100''\<rparr>]"
  let ?w = "world0 [token_response, page_response [''1.0'', ''2.0''] None,
                    token_response, page_response [''1.0'', ''2.0''] None]"
  let ?D = "\<lambda>it. if date it = ''January 01, 2020'' then 1577836800 else (4102444800 :: int)"
  have g: "get_tag_list (env_demo ?items) cfg_demo = Inr ?items"
    by (rule get_tag_list_demo)
  have p: "\<forall>it\<in>set ?items. parse_date (env_demo ?items) cfg_demo (date it) = Inr (?D it)"
    by (simp add: parse_date_def env_demo_def cfg_demo_def)
  have r: "tags_to_delete (env_demo ?items) cfg_demo ?w
           = (Inr [''1.0'', ''2.0''], snd (tags_to_delete (env_demo ?items) cfg_demo ?w))"
    by code_simp
  have s: "sent ?w = []" by (simp add: world0_def)
  from listing_is_fetched_once_per_pattern [OF g p r] s
  show ?thesis by (simp add: env_demo_def)
qed

text \<open>
  The claim as stated fails: one due record with two patterns has the listing fetched
  twice.
\<close>

theorem two_patterns_of_one_record_fetch_twice:
  "length (filter starts_listing (sent (snd (tags_to_delete
      (env_demo [\<lparr>tags = [''1.*'', ''2.*''], date = ''January 01, 2020''\<rparr>])
      cfg_demo
      (world0 [token_response, page_response [''1.0'', ''2.0''] None,
               token_response, page_response [''1.0'', ''2.0''] None]))))) = 2
   \<and> fst (tags_to_delete
      (env_demo [\<lparr>tags = [''1.*'', ''2.*''], date = ''January 01, 2020''\<rparr>])
      cfg_demo
      (world0 [token_response, page_response [''1.0'', ''2.0''] None,
               token_response, page_response [''1.0'', ''2.0''] None]))
     = Inr [''1.0'', ''2.0'']"
  by code_simp

subsection \<open>Deleting\<close>

lemma delete_loop_stdout:
  "delete_loop cfg token ts deleted w = (x, w1) \<Longrightarrow> stdout w1 = stdout w"
proof (induction ts arbitrary: deleted w)
  case Nil
  then show ?case by simp
next
  case (Cons tag ts)
  obtain y w2 where rq:
    "session_request (DELETE (api_base_url cfg @ delete_url cfg tag) token) w = (y, w2)"
    by (cases "session_request (DELETE (api_base_url cfg @ delete_url cfg tag) token) w")
  note l = session_request_log [OF rq]
  from Cons.prems rq l show ?case
    by (auto split: sum.splits dest: Cons.IH)
qed

lemma delete_loop_complete:
  "delete_loop cfg token ts deleted w = (Inr d, w1) \<Longrightarrow>
   d = deleted @ ts
   \<and> sent w1 = sent w @ map (\<lambda>tag. DELETE (api_base_url cfg @ delete_url cfg tag) token) ts"
proof (induction ts arbitrary: deleted w)
  case Nil
  then show ?case by simp
next
  case (Cons tag ts)
  from Cons.prems obtain resp w2 where rq:
    "session_request (DELETE (api_base_url cfg @ delete_url cfg tag) token) w = (Inr resp, w2)"
    and l: "delete_loop cfg token ts (deleted @ [tag]) w2 = (Inr d, w1)"
    by (auto split: prod.splits sum.splits)
  from Cons.IH [OF l] session_request_log [OF rq] show ?case by simp
qed

lemma delete_loop_first_failure:
  "k < length ts \<Longrightarrow> k < length (script w) \<Longrightarrow>
   \<forall>i<k. \<not> (400 \<le> status (script w ! i) \<and> status (script w ! i) < 600) \<Longrightarrow>
   400 \<le> status (script w ! k) \<Longrightarrow> status (script w ! k) < 600 \<Longrightarrow>
   delete_loop cfg token ts deleted w =
     (Inl (HTTPError (status (script w ! k))),
      w\<lparr>script := drop (Suc k) (script w),
        sent := sent w @ map (\<lambda>tag. DELETE (api_base_url cfg @ delete_url cfg tag) token)
                              (take (Suc k) ts)\<rparr>)"
proof (induction ts arbitrary: k deleted w)
  case Nil
  then show ?case by simp
next
  case (Cons tag ts)
  from Cons.prems(2) obtain r rs where sc: "script w = r # rs" by (cases "script w") auto
  let ?rq = "DELETE (api_base_url cfg @ delete_url cfg tag) token"
  let ?w2 = "w\<lparr>script := rs, sent := sent w @ [?rq]\<rparr>"
  have rq: "session_request ?rq w = (Inr r, ?w2)" using sc by (rule session_request_Cons)
  show ?case
  proof (cases k)
    case 0
    with Cons.prems sc rq show ?thesis
      by (simp add: raise_for_status_def)
  next
    case (Suc j)
    with Cons.prems(3) sc have ok: "raise_for_status r = Inr ()"
      by (auto simp: raise_for_status_def)
    have a: "j < length ts" using Cons.prems(1) Suc by simp
    have b: "j < length (script ?w2)" using Cons.prems(2) Suc sc by simp
    have c: "\<forall>i<j. \<not> (400 \<le> status (script ?w2 ! i) \<and> status (script ?w2 ! i) < 600)"
      using Cons.prems(3) Suc sc by auto
    have d: "400 \<le> status (script ?w2 ! j)" "status (script ?w2 ! j) < 600"
      using Cons.prems(4,5) Suc sc by simp_all
    from Cons.IH [OF a b c d, of "deleted @ [tag]"] rq ok Suc sc show ?thesis
      by simp
  qed
qed

lemma print_all_log:
  "stdout (fold (\<lambda>tag. print (f tag)) ts w) = stdout w @ map f ts
   \<and> sent (fold (\<lambda>tag. print (f tag)) ts w) = sent w"
  by (induction ts arbitrary: w) (simp_all add: print_def)

lemma delete_expired_tags_stdout:
  assumes "delete_expired_tags ev cfg w = (x, w1)"
  shows "stdout w1 = stdout w"
proof -
  obtain y w2 where tk: "docker_hub_token cfg w = (y, w2)"
    by (cases "docker_hub_token cfg w")
  note l1 = docker_hub_token_log(2) [OF tk]
  show ?thesis
  proof (cases y)
    case (Inl e)
    with tk assms l1 show ?thesis by (simp add: delete_expired_tags_def)
  next
    case (Inr token)
    obtain z w3 where td: "tags_to_delete ev cfg w2 = (z, w3)"
      by (cases "tags_to_delete ev cfg w2")
    note l2 = tags_to_delete_requests(2) [OF td]
    show ?thesis
    proof (cases z)
      case Inl2: (Inl e)
      with tk Inr td assms l1 l2 show ?thesis by (simp add: delete_expired_tags_def)
    next
      case Inr2: (Inr ts)
      with tk Inr td assms have "delete_loop cfg token ts [] w3 = (x, w1)"
        by (simp add: delete_expired_tags_def)
      from delete_loop_stdout [OF this] l1 l2 show ?thesis by simp
    qed
  qed
qed

lemma delete_expired_tags_complete:
  assumes "delete_expired_tags ev cfg w = (Inr d, w1)"
  shows "\<exists>token w2 ts w3. docker_hub_token cfg w = (Inr token, w2)
           \<and> tags_to_delete ev cfg w2 = (Inr ts, w3)
           \<and> sent w1 = sent w3 @ map (\<lambda>tag. DELETE (api_base_url cfg @ delete_url cfg tag) token) ts"
proof -
  from assms obtain token w2 ts w3
    where tk: "docker_hub_token cfg w = (Inr token, w2)"
      and td: "tags_to_delete ev cfg w2 = (Inr ts, w3)"
      and dl: "delete_loop cfg token ts [] w3 = (Inr d, w1)"
    by (auto simp: delete_expired_tags_def split: prod.splits sum.splits)
  from delete_loop_complete [OF dl] tk td show ?thesis by blast
qed

text \<open>
  C3 (amended). Let the run reach the loop of \<open>delete_expired_tags\<close> with the matched
  names \<open>ts\<close>, and let the answer to the delete request number \<open>k\<close> be the first with a
  status from 400 to 599, those on which \<open>raise_for_status\<close> raises. Then the delete
  requests sent are those for the first \<open>k + 1\<close> names, in the order of \<open>ts\<close>; no
  request follows the failed one, none undoes an earlier deletion, and the run ends with
  \<open>HTTPError\<close> of that status, which is a non-zero exit.
\<close>

theorem first_failed_delete_aborts_run:
  assumes "tags_to_delete ev cfg w = (Inr ts0, w1)"
    and "ts0 \<noteq> []"
    and "docker_hub_token cfg w1 = (Inr token, w2)"
    and "tags_to_delete ev cfg w2 = (Inr ts, w3)"
    and "k < length ts"
    and "k < length (script w3)"
    and "\<forall>i<k. \<not> (400 \<le> status (script w3 ! i) \<and> status (script w3 ! i) < 600)"
    and "400 \<le> status (script w3 ! k)"
    and "status (script w3 ! k) < 600"
  shows "main ev cfg w =
           (Inl (HTTPError (status (script w3 ! k))),
            w3\<lparr>script := drop (Suc k) (script w3),
               sent := sent w3 @ map (\<lambda>tag. DELETE (api_base_url cfg @ delete_url cfg tag) token)
                                      (take (Suc k) ts)\<rparr>)"
proof -
  from delete_loop_first_failure [OF assms(5-9)]
  have "delete_expired_tags ev cfg w1 =
           (Inl (HTTPError (status (script w3 ! k))),
            w3\<lparr>script := drop (Suc k) (script w3),
               sent := sent w3 @ map (\<lambda>tag. DELETE (api_base_url cfg @ delete_url cfg tag) token)
                                      (take (Suc k) ts)\<rparr>)"
    using assms(3,4) by (simp add: delete_expired_tags_def)
  with assms(1,2) show ?thesis by (simp add: main_def)
qed

text \<open>Three matched tags, the second delete answered 500.\<close>

theorem first_failed_delete_aborts_run_witness:
  "main (env_demo [\<lparr>tags = [''*''], date = ''January 01, 2020''\<rparr>]) cfg_demo
        (world0 (three_tags_script 500))
   = (Inl (HTTPError 500),
      \<lparr>script = [\<lparr>status = 204, body = Malformed\<rparr>],
       sent = [POST ''https://hub.docker.com/v2/users/login'',
               GET ''https://hub.docker.com/v2/namespaces/org/repositories/repo/tags''
                 [(''page_size'', ''100''), (''ordering'', ''name'')] ''secret'',
               POST ''https://hub.docker.com/v2/users/login'',
               POST ''https://hub.docker.com/v2/users/login'',
               GET ''https://hub.docker.com/v2/namespaces/org/repositories/repo/tags''
                 [(''page_size'', ''100''), (''ordering'', ''name'')] ''secret'',
               DELETE ''https://hub.docker.com/v2/namespaces/org/repositories/repo/tags/a''
                 ''secret'',
               DELETE ''https://hub.docker.com/v2/namespaces/org/repositories/repo/tags/b''
                 ''secret''],
       stdout = []\<rparr>)"
proof -
  let ?ev = "env_demo [\<lparr>tags = [''*''], date = ''January 01, 2020''\<rparr>]"
  let ?w = "world0 (three_tags_script 500)"
  let ?w1 = "snd (tags_to_delete ?ev cfg_demo ?w)"
  let ?w2 = "snd (docker_hub_token cfg_demo ?w1)"
  let ?w3 = "snd (tags_to_delete ?ev cfg_demo ?w2)"
  have a: "tags_to_delete ?ev cfg_demo ?w = (Inr [''a'', ''b'', ''c''], ?w1)" by code_simp
  have b: "[''a'', ''b'', ''c''] \<noteq> ([] :: string list)" by simp
  have c: "docker_hub_token cfg_demo ?w1 = (Inr ''secret'', ?w2)" by code_simp
  have d: "tags_to_delete ?ev cfg_demo ?w2 = (Inr [''a'', ''b'', ''c''], ?w3)" by code_simp
  have w3: "?w3 = \<lparr>script = [\<lparr>status = 204, body = Malformed\<rparr>,
                              \<lparr>status = 500, body = Malformed\<rparr>,
                              \<lparr>status = 204, body = Malformed\<rparr>],
       sent = [POST ''https://hub.docker.com/v2/users/login'',
               GET ''https://hub.docker.com/v2/namespaces/org/repositories/repo/tags''
                 [(''page_size'', ''100''), (''ordering'', ''name'')] ''secret'',
               POST ''https://hub.docker.com/v2/users/login'',
               POST ''https://hub.docker.com/v2/users/login'',
               GET ''https://hub.docker.com/v2/namespaces/org/repositories/repo/tags''
                 [(''page_size'', ''100''), (''ordering'', ''name'')] ''secret''],
       stdout = []\<rparr>" by code_simp
  have e: "(1::nat) < length [''a'', ''b'', ''c'']" by simp
  have f: "(1::nat) < length (script ?w3)" by (simp add: w3)
  have g: "\<forall>i<(1::nat). \<not> (400 \<le> status (script ?w3 ! i) \<and> status (script ?w3 ! i) < 600)"
    by (simp add: w3)
  have h: "400 \<le> status (script ?w3 ! 1)" "status (script ?w3 ! 1) < 600"
    by (simp_all add: w3)
  from first_failed_delete_aborts_run [OF a b c d e f g h]
  show ?thesis
    unfolding w3 by (simp add: cfg_demo_def delete_url_def)
qed

text \<open>
  The claim as stated, for every status that is not 2xx, fails: a delete answered 304
  raises nothing, the loop goes on to the third name and the run ends normally.
\<close>

theorem redirect_status_does_not_abort:
  "fst (main (env_demo [\<lparr>tags = [''*''], date = ''January 01, 2020''\<rparr>]) cfg_demo
          (world0 (three_tags_script 304))) = Inr ()
   \<and> filter is_delete
        (sent (snd (main (env_demo [\<lparr>tags = [''*''], date = ''January 01, 2020''\<rparr>]) cfg_demo
                      (world0 (three_tags_script 304)))))
     = [DELETE ''https://hub.docker.com/v2/namespaces/org/repositories/repo/tags/a'' ''secret'',
        DELETE ''https://hub.docker.com/v2/namespaces/org/repositories/repo/tags/b'' ''secret'',
        DELETE ''https://hub.docker.com/v2/namespaces/org/repositories/repo/tags/c'' ''secret'']"
  by code_simp

text \<open>
  C4 (amended). The lines are printed by \<open>__main__\<close> after \<open>delete_expired_tags\<close> has
  returned. When the run completes, one line \<open>> Deleted org/repo:tag\<close> is printed, in
  order, for every name of the list \<open>ts0\<close> that \<open>__main__\<close> matched, and the delete
  requests were sent for the list \<open>ts\<close> matched again inside \<open>delete_expired_tags\<close>:
  the deleted tags have their lines when the two lists agree. When the run fails,
  nothing is printed.
\<close>

theorem confirmation_lines_follow_complete_run:
  assumes "tags_to_delete ev cfg w = (Inr ts0, w1)"
    and "ts0 \<noteq> []"
    and "main ev cfg w = (x, w')"
  shows "case x of
           Inl e \<Rightarrow> stdout w' = stdout w
         | Inr u \<Rightarrow>
             (\<exists>token w2 ts w3.
                 docker_hub_token cfg w1 = (Inr token, w2)
               \<and> tags_to_delete ev cfg w2 = (Inr ts, w3)
               \<and> sent w' = sent w3 @ map (\<lambda>tag. DELETE (api_base_url cfg @ delete_url cfg tag) token) ts
               \<and> stdout w' = stdout w @ map (deleted_line cfg) ts0)"
proof -
  obtain y w2 where de: "delete_expired_tags ev cfg w1 = (y, w2)"
    by (cases "delete_expired_tags ev cfg w1")
  note o1 = tags_to_delete_requests(2) [OF assms(1)]
  note o2 = delete_expired_tags_stdout [OF de]
  show ?thesis
  proof (cases y)
    case (Inl e)
    with assms de have "x = Inl e" "w' = w2" by (simp_all add: main_def)
    with o1 o2 show ?thesis by simp
  next
    case (Inr d)
    with assms de have x: "x = Inr ()"
      and w': "w' = fold (\<lambda>tag. print (deleted_line cfg tag)) ts0 w2"
      by (simp_all add: main_def)
    from de Inr delete_expired_tags_complete [of ev cfg w1 d w2]
    obtain token v2 ts v3 where "docker_hub_token cfg w1 = (Inr token, v2)"
      and "tags_to_delete ev cfg v2 = (Inr ts, v3)"
      and "sent w2 = sent v3 @ map (\<lambda>tag. DELETE (api_base_url cfg @ delete_url cfg tag) token) ts"
      by blast
    with x w' o1 o2 print_all_log [of "deleted_line cfg" ts0 w2] show ?thesis
      by auto
  qed
qed

text \<open>The end-to-end example: \<open>v1\<close> is deleted and its line is printed.\<close>

theorem confirmation_lines_follow_complete_run_witness:
  "stdout (snd (main (env_demo [\<lparr>tags = [''v1''], date = ''January 01, 2020''\<rparr>]) cfg_demo
                  (world0 [token_response, page_response [''v1'', ''v2''] None,
                           token_response,
                           token_response, page_response [''v1'', ''v2''] None,
                           \<lparr>status = 204, body = Malformed\<rparr>])))
   = [''> Deleted org/repo:v1'']"
proof -
  let ?ev = "env_demo [\<lparr>tags = [''v1''], date = ''January 01, 2020''\<rparr>]"
  let ?w = "world0 [token_response, page_response [''v1'', ''v2''] None,
                    token_response,
                    token_response, page_response [''v1'', ''v2''] None,
                    \<lparr>status = 204, body = Malformed\<rparr>]"
  have a: "tags_to_delete ?ev cfg_demo ?w = (Inr [''v1''], snd (tags_to_delete ?ev cfg_demo ?w))"
    by code_simp
  have b: "[''v1''] \<noteq> ([] :: string list)" by simp
  have c: "main ?ev cfg_demo ?w = (Inr (), snd (main ?ev cfg_demo ?w))" by code_simp
  from confirmation_lines_follow_complete_run [OF a b c]
  show ?thesis
    by (auto simp: deleted_line_def cfg_demo_def world0_def)
qed

text \<open>
  The claim as stated fails: when the second of three deletes is answered 500, the first
  tag has been deleted (answer 204) and no line is printed for it.
\<close>

theorem no_line_for_tag_deleted_before_failure:
  "stdout (snd (main (env_demo [\<lparr>tags = [''*''], date = ''January 01, 2020''\<rparr>]) cfg_demo
                  (world0 (three_tags_script 500)))) = []
   \<and> filter is_delete
        (sent (snd (main (env_demo [\<lparr>tags = [''*''], date = ''January 01, 2020''\<rparr>]) cfg_demo
                      (world0 (three_tags_script 500)))))
     = [DELETE ''https://hub.docker.com/v2/namespaces/org/repositories/repo/tags/a'' ''secret'',
        DELETE ''https://hub.docker.com/v2/namespaces/org/repositories/repo/tags/b'' ''secret'']"
  by code_simp

subsection \<open>The Markdown reader\<close>

lemma readme_loop_rows:
  "readme_loop cfg lines parsing items n =
     (case parse_rows cfg (drop (2 - n) (candidate_rows cfg parsing lines)) of
        Inl e \<Rightarrow> Inl e
      | Inr its \<Rightarrow> Inr (items @ its))"
proof (induction lines arbitrary: parsing items n)
  case Nil
  then show ?case by simp
next
  case (Cons line rest)
  let ?p1 = "parsing \<or> startswith line (begin_string cfg)"
  let ?p2 = "?p1 \<and> \<not> startswith line (end_string cfg)"
  let ?cand = "?p1 \<and> startswith line ''|'' \<and> \<not> line_is_ignored cfg line \<and> strip line \<noteq> []"
  show ?case
  proof (cases ?cand)
    case False
    then have "readme_loop cfg (line # rest) parsing items n = readme_loop cfg rest ?p2 items n"
      by (auto simp: Let_def)
    moreover from False have "candidate_rows cfg parsing (line # rest) = candidate_rows cfg ?p2 rest"
      by (auto simp: Let_def)
    ultimately show ?thesis using Cons.IH [of ?p2 items n] by simp
  next
    case True
    then have c: "candidate_rows cfg parsing (line # rest) = line # candidate_rows cfg ?p2 rest"
      by (auto simp: Let_def)
    show ?thesis
    proof (cases "n < 2")
      case lt: True
      with True have "readme_loop cfg (line # rest) parsing items n
                      = readme_loop cfg rest ?p2 items (Suc n)"
        by (auto simp: Let_def)
      moreover from lt have "drop (2 - n) (line # candidate_rows cfg ?p2 rest)
                             = drop (2 - Suc n) (candidate_rows cfg ?p2 rest)"
        by (cases n) (auto simp: numeral_2_eq_2)
      ultimately show ?thesis using Cons.IH [of ?p2 items "Suc n"] c by simp
    next
      case ge: False
      then have d: "drop (2 - n) (line # candidate_rows cfg ?p2 rest)
                    = line # drop (2 - Suc n) (candidate_rows cfg ?p2 rest)" by simp
      show ?thesis
      proof (cases "parse_md_line cfg line")
        case (Inl e)
        with True ge c d show ?thesis by (auto simp: Let_def)
      next
        case (Inr it)
        with True ge have "readme_loop cfg (line # rest) parsing items n
                           = readme_loop cfg rest ?p2 (items @ [it]) (Suc n)"
          by (auto simp: Let_def)
        with Cons.IH [of ?p2 "items @ [it]" "Suc n"] c d Inr show ?thesis
          by (simp split: sum.splits)
      qed
    qed
  qed
qed

lemma candidate_rows_append:
  "candidate_rows cfg parsing (pre @ post)
   = candidate_rows cfg parsing pre @ candidate_rows cfg (parsing_after cfg parsing pre) post"
  by (induction pre arbitrary: parsing) (simp_all add: Let_def)

text \<open>
  C10. The counter \<open>linenum\<close> runs over the whole file: \<open>get_readme_table\<close> returns
  the records of all candidate rows of the file but the first two. So when the lines
  \<open>pre\<close> hold two candidate rows or more (the first table region), every candidate row
  of the lines \<open>post\<close> that follow is parsed and returned, the header and the separator
  of a later region included.
\<close>

theorem skipped_rows_are_counted_over_whole_file:
  assumes "markdown_file cfg = Some path"
    and "readlines ev path = Inr (pre @ post)"
  shows "get_readme_table ev cfg = parse_rows cfg (drop 2 (candidate_rows cfg False (pre @ post)))
         \<and> (2 \<le> length (candidate_rows cfg False pre) \<longrightarrow>
              get_readme_table ev cfg
              = parse_rows cfg (drop 2 (candidate_rows cfg False pre)
                                @ candidate_rows cfg (parsing_after cfg False pre) post))"
proof -
  have "get_readme_table ev cfg = parse_rows cfg (drop 2 (candidate_rows cfg False (pre @ post)))"
    using assms by (simp add: get_readme_table_def readme_loop_rows split: sum.splits)
  then show ?thesis by (simp add: candidate_rows_append)
qed

text \<open>
  In the file with two regions the header and the separator of the second table come
  back as records; the line between the regions is no candidate row.
\<close>

theorem skipped_rows_are_counted_over_whole_file_witness:
  "get_readme_table ((env_demo []) \<lparr>readlines := \<lambda>path. Inr two_tables\<rparr>)
                    (cfg_demo \<lparr>markdown_file := Some ''README.md''\<rparr>)
   = Inr [\<lparr>tags = [''1.*''], date = ''January 01, 2020''\<rparr>,
          \<lparr>tags = [''Tags''], date = ''Date''\<rparr>,
          \<lparr>tags = [''---''], date = ''---''\<rparr>,
          \<lparr>tags = [''2.*'', '' 3.*''], date = ''January 01, 2100''\<rparr>]"
proof -
  let ?ev = "(env_demo []) \<lparr>readlines := \<lambda>path. Inr two_tables\<rparr>"
  let ?cfg = "cfg_demo \<lparr>markdown_file := Some ''README.md''\<rparr>"
  have a: "markdown_file ?cfg = Some ''README.md''" by simp
  have b: "readlines ?ev ''README.md'' = Inr (take 6 two_tables @ drop 6 two_tables)"
    by (simp add: env_demo_def)
  have c: "2 \<le> length (candidate_rows ?cfg False (take 6 two_tables))" by code_simp
  have d: "parse_rows ?cfg (drop 2 (candidate_rows ?cfg False (take 6 two_tables))
                            @ candidate_rows ?cfg (parsing_after ?cfg False (take 6 two_tables))
                                (drop 6 two_tables))
           = Inr [\<lparr>tags = [''1.*''], date = ''January 01, 2020''\<rparr>,
                  \<lparr>tags = [''Tags''], date = ''Date''\<rparr>,
                  \<lparr>tags = [''---''], date = ''---''\<rparr>,
                  \<lparr>tags = [''2.*'', '' 3.*''], date = ''January 01, 2100''\<rparr>]"
    by code_simp
  from skipped_rows_are_counted_over_whole_file [OF a b] c
  have "get_readme_table ?ev ?cfg
        = parse_rows ?cfg (drop 2 (candidate_rows ?cfg False (take 6 two_tables))
                            @ candidate_rows ?cfg (parsing_after ?cfg False (take 6 two_tables))
                                (drop 6 two_tables))"
    by blast
  then show ?thesis using d by (rule trans)
qed

subsection \<open>Column indices\<close>

lemma split_on_not_Nil: "split_on sep s \<noteq> []"
  by (induction s) (auto split: list.splits)

lemma length_split_on:
  "length (split_on sep s) = Suc (length (filter (\<lambda>c. c = sep) s))"
  using split_on_not_Nil [of sep]
  by (induction s) (auto split: list.splits)

lemma filter_dropWhile_disjoint:
  "(\<And>x. Q x \<Longrightarrow> \<not> P x) \<Longrightarrow> filter P (dropWhile Q xs) = filter P xs"
  by (induction xs) auto

lemma isspace_not_pipe: "isspace c \<Longrightarrow> c \<noteq> CHR ''|''"
  by (auto simp: isspace_def)

lemma pipes_of_strip:
  "filter (\<lambda>c. c = CHR ''|'') (strip s) = filter (\<lambda>c. c = CHR ''|'') s"
proof -
  have a: "\<And>xs. filter (\<lambda>c. c = CHR ''|'') (dropWhile isspace xs) = filter (\<lambda>c. c = CHR ''|'') xs"
    by (rule filter_dropWhile_disjoint) (auto dest: isspace_not_pipe)
  have "filter (\<lambda>c. c = CHR ''|'') (strip s)
        = rev (filter (\<lambda>c. c = CHR ''|'') (dropWhile isspace (rev (dropWhile isspace s))))"
    by (simp add: strip_def rstrip_def lstrip_def rev_filter)
  also have "\<dots> = rev (filter (\<lambda>c. c = CHR ''|'') (rev (dropWhile isspace s)))"
    by (simp only: a)
  also have "\<dots> = filter (\<lambda>c. c = CHR ''|'') (dropWhile isspace s)"
    by (simp add: rev_filter [symmetric])
  also have "\<dots> = filter (\<lambda>c. c = CHR ''|'') s" by (rule a)
  finally show ?thesis .
qed

lemma pieces_of_row:
  "int (length (split_on (CHR ''|'') (strip line))) - 1
   = int (length (filter (\<lambda>c. c = CHR ''|'') line))"
  by (simp add: length_split_on pipes_of_strip)

text \<open>
  C7 (amended). With column settings that are numbers from 1 on, parsing a row fails
  with \<open>IndexError\<close> (the spec's ColumnRangeError) if and only if the tag column or the
  date column exceeds the number of \<open>|\<close> characters of the row, which is the number of
  pieces that follow the first \<open>|\<close>: for a row closed by \<open>|\<close>, one more than its
  number of cells.
\<close>

theorem column_out_of_range_iff_beyond_pipes:
  assumes "tag_column cfg = Some tc"
    and "date_column cfg = Some dc"
    and "1 \<le> tc"
    and "1 \<le> dc"
  shows "(\<exists>m. parse_md_line cfg line = Inl (IndexError m))
         \<longleftrightarrow> (tc > int (length (filter (\<lambda>c. c = CHR ''|'') line))
              \<or> dc > int (length (filter (\<lambda>c. c = CHR ''|'') line)))"
proof -
  let ?md = "split_on (CHR ''|'') (strip line)"
  let ?n = "int (length (filter (\<lambda>c. c = CHR ''|'') line))"
  have n: "int (length ?md) - 1 = ?n" by (rule pieces_of_row)
  show ?thesis
  proof (cases "tc > ?n \<or> dc > ?n")
    case True
    with assms n show ?thesis
      by (auto simp: parse_md_line_def Let_def)
  next
    case False
    with assms n have "0 \<le> tc \<and> tc < int (length ?md)" "0 \<le> dc \<and> dc < int (length ?md)"
      by auto
    then have "py_index ?md tc = Inr (?md ! nat tc)" "py_index ?md dc = Inr (?md ! nat dc)"
      by (simp_all add: py_index_def)
    with assms n False show ?thesis
      by (auto simp: parse_md_line_def Let_def)
  qed
qed

theorem column_out_of_range_iff_beyond_pipes_witness:
  "\<exists>m. parse_md_line cfg_demo ''| 1.*'' = Inl (IndexError m)"
proof -
  have a: "tag_column cfg_demo = Some 1" "date_column cfg_demo = Some 2"
    by (simp_all add: cfg_demo_def)
  have b: "(1::int) \<le> 1" "(1::int) \<le> 2" by simp_all
  from column_out_of_range_iff_beyond_pipes [OF a b, of "''| 1.*''"]
  show ?thesis by simp
qed

text \<open>
  The claim as stated fails: the row has two cells, and with the date column set to 3
  the row parses, the date being the empty piece behind the closing pipe.
\<close>

theorem column_beyond_cells_of_closed_row_is_accepted:
  "parse_md_line (cfg_demo \<lparr>date_column := Some 3\<rparr>) ''| 1.* | January 01, 2020 |''
   = Inr \<lparr>tags = [''1.*''], date = ''''\<rparr>
   \<and> row_cells ''| 1.* | January 01, 2020 |'' = ['' 1.* '', '' January 01, 2020 '']"
  by code_simp

subsection \<open>Matching\<close>









end
